theory Spec2Isabelle
  imports Main
begin

section \<open>Text: character classes, decimal numbers\<close>

text \<open>
  Descriptions, file names and console input are Python \<^verbatim>\<open>str\<close> values. They are
  modelled as \<^typ>\<open>string\<close> and taken to be ASCII text: \<^verbatim>\<open>\d\<close> is then \<^verbatim>\<open>[0-9]\<close>, and
  \<^verbatim>\<open>\s\<close> (as \<^verbatim>\<open>str.isspace\<close>) is tab, line feed, vertical tab, form feed, carriage
  return, the four separators 0x1C..0x1F and the blank.
\<close>

definition is_digit :: "char \<Rightarrow> bool" where
  "is_digit c = (let n = (of_char c :: nat) in 48 \<le> n \<and> n \<le> 57)"

definition is_space :: "char \<Rightarrow> bool" where
  "is_space c = (let n = (of_char c :: nat) in (9 \<le> n \<and> n \<le> 13) \<or> (28 \<le> n \<and> n \<le> 32))"

definition digit_val :: "char \<Rightarrow> int" where
  "digit_val c = int (of_char c) - 48"

text \<open>\<^verbatim>\<open>int(s)\<close> on a string of decimal digits (the only strings the regex groups hand it).\<close>

definition int_of_digits :: "string \<Rightarrow> int" where
  "int_of_digits ds = foldl (\<lambda>acc c. 10 * acc + digit_val c) 0 ds"

text \<open>A non-empty string of decimal digits, what a group \<^verbatim>\<open>(\d+)\<close> captures.\<close>

definition digit_string :: "string \<Rightarrow> bool" where
  "digit_string ds = (ds \<noteq> [] \<and> list_all is_digit ds)"

text \<open>\<^verbatim>\<open>str(n)\<close> as an f-string renders an integer: decimal, no leading zeros, a minus sign.\<close>

fun str_nat :: "nat \<Rightarrow> string" where
  "str_nat n = (if n < 10 then [char_of (48 + n)] else str_nat (n div 10) @ [char_of (48 + n mod 10)])"

declare str_nat.simps [simp del]

definition str_int :: "int \<Rightarrow> string" where
  "str_int i = (if i < 0 then CHR ''-'' # str_nat (nat (- i)) else str_nat (nat i))"

section \<open>The two regular expressions\<close>

text \<open>
  The source uses \<^verbatim>\<open>re.search\<close> with two patterns,
  \<^verbatim>\<open>Off:(\d+)\s*Def:(\d+)\<close> on descriptions and \<^verbatim>\<open>Off(\d+)_Def(\d+)_Total(\d+)\<close> on file
  names. Both are sequences of three kinds of item: a literal, a capturing group
  \<^verbatim>\<open>(\d+)\<close>, and \<^verbatim>\<open>\s*\<close>. The matcher below is the backtracking one of \<^verbatim>\<open>re\<close> for this
  fragment: a repetition first takes as many characters as it can and gives them back one
  by one while the rest of the pattern fails; \<^verbatim>\<open>search\<close> tries the start positions from
  left to right.
\<close>

datatype item = Lit string | Digits1 | Spaces0

fun strip_prefix :: "string \<Rightarrow> string \<Rightarrow> string option" where
  "strip_prefix [] s = Some s"
| "strip_prefix (c # cs) [] = None"
| "strip_prefix (c # cs) (d # ds) = (if c = d then strip_prefix cs ds else None)"

text \<open>\<open>try_down f lo hi\<close>: the first success of \<open>f\<close> at \<open>hi, hi - 1, \<dots>, lo\<close>.\<close>

fun try_down :: "(nat \<Rightarrow> 'a option) \<Rightarrow> nat \<Rightarrow> nat \<Rightarrow> 'a option" where
  "try_down f lo 0 = (if lo = 0 then f 0 else None)"
| "try_down f lo (Suc n) =
     (if Suc n < lo then None
      else (case f (Suc n) of Some r \<Rightarrow> Some r | None \<Rightarrow> try_down f lo n))"

text \<open>A match at the start of \<open>s\<close>: the captured groups in order, and what follows the match.\<close>

primrec match_items :: "item list \<Rightarrow> string \<Rightarrow> (string list \<times> string) option" where
  "match_items [] s = Some ([], s)"
| "match_items (i # is) s =
     (case i of
        Lit l \<Rightarrow> (case strip_prefix l s of None \<Rightarrow> None | Some r \<Rightarrow> match_items is r)
      | Digits1 \<Rightarrow>
          try_down
            (\<lambda>n. case match_items is (drop n s) of
                    None \<Rightarrow> None
                  | Some (gs, r) \<Rightarrow> Some (take n s # gs, r))
            1 (length (takeWhile is_digit s))
      | Spaces0 \<Rightarrow>
          try_down (\<lambda>n. match_items is (drop n s)) 0 (length (takeWhile is_space s)))"

fun re_search :: "item list \<Rightarrow> string \<Rightarrow> string list option" where
  "re_search pat [] = map_option fst (match_items pat [])"
| "re_search pat (c # cs) =
     (case match_items pat (c # cs) of
        Some (gs, r) \<Rightarrow> Some gs
      | None \<Rightarrow> re_search pat cs)"

definition desc_pattern :: "item list" where
  "desc_pattern = [Lit ''Off:'', Digits1, Spaces0, Lit ''Def:'', Digits1]"

definition name_pattern :: "item list" where
  "name_pattern = [Lit ''Off'', Digits1, Lit ''_Def'', Digits1, Lit ''_Total'', Digits1]"

section \<open>StatExtractor: \<^verbatim>\<open>extract_off_def\<close>\<close>

text \<open>
  \<^verbatim>\<open>match.group(1)\<close>, \<^verbatim>\<open>match.group(2)\<close> are the first two captured groups. The result is
  the Python tuple: \<open>None\<close> is \<^verbatim>\<open>None\<close>.
\<close>

definition extract_off_def :: "string \<Rightarrow> int option \<times> int option" where
  "extract_off_def description =
     (case re_search desc_pattern description of
        Some gs \<Rightarrow> (Some (int_of_digits (gs ! 0)), Some (int_of_digits (gs ! 1)))
      | None \<Rightarrow> (None, None))"



section \<open>The world outside the program\<close>

text \<open>
  Files are named as the program names them, relative to its working directory; two
  different names are two different files. Creating and writing a local file succeeds;
  \<^verbatim>\<open>os.remove\<close> of a file that is not there raises. What the browser, the network and
  ffmpeg do is not decided by the program: the world holds, for the n-th retrieval and the
  n-th ffmpeg run, what they will do, and \<^verbatim>\<open>os.path.abspath\<close> as a function. Everything the
  program does to its surroundings is appended to \<open>trace\<close> in the order it happens:
  entering and leaving the Playwright session, launching and closing the browser, page
  loads, waits, requests, every ffmpeg run (with its argument list and the content of its
  \<^verbatim>\<open>-i\<close> file as the tool finds it), every question asked with \<^verbatim>\<open>input\<close> and every
  \<^verbatim>\<open>print\<close>. A constructor of \<open>msg\<close> stands for one \<^verbatim>\<open>print\<close> statement of the source (the
  three lines printed after a failed overlay are one message), with the values it
  formats.
\<close>

type_synonym path = string
type_synonym bytes = string

datatype py_error =
    IndexError | TypeError | EOFError
  | FileNotFoundError path
  | VideoSourceNotFound
  | PlaywrightError
  | RequestsError
  | ToolNotFound

datatype question = AskReplaceAny | AskClipNumber nat | AskNewUrl int | AskReplaceAnother

datatype msg =
    AttemptToLoad nat | ErrorWaitingForVideo | ErrorLoadingPage | Retrying | MaxRetriesReached
  | VideoSourceURL string | DownloadCompleted path | FailedToDownload nat
  | Overlayed path | ErrorOverlaying path
  | CreatedFinalVideo path | ErrorConcatenating path
  | CouldNotFindStats path | DownloadingReplacement int | ApplyingOverlay int
  | ReplacementCompleted int
  | InvalidClipNumber nat | InvalidInput
  | NoMatchingEvents | SkippingEvent string | ProcessingEvent nat nat int | VideoPageURL string
  | Waiting | NoVideosProcessed | ReplacementsWereMade
  | SummaryTweet string string string int int int
  | SummaryTikTok string string string int int int
  | AllDone

datatype event =
    SessionEnter | SessionExit
  | BrowserLaunch | BrowserClose
  | PageGoto string | WaitForVideo
  | Sleep3 | SleepRandom
  | HttpGet string
  | RunTool "string list" "bytes option"
  | Ask question
  | Print msg

text \<open>
  One retrieval: whether the Playwright session, the browser and the page come up; what
  each navigation attempt does; what the \<^verbatim>\<open>src\<close> attribute holds; what the download
  answers (status, the chunks of the body, and whether the stream breaks after them).
\<close>

datatype start_outcome = Started | EnterRaises | LaunchRaises | NewPageRaises
datatype nav_outcome = Loaded | GotoRaises | WaitRaises
datatype src_outcome = Src string | SrcNone | SrcRaises
datatype http_outcome = GetRaises | Response nat "bytes list" bool

record retrieval =
  start :: start_outcome
  nav :: "nat \<Rightarrow> nav_outcome"
  src :: src_outcome
  http :: http_outcome

text \<open>
  One ffmpeg run: it exits with 0 and has written its output file, or exits with another
  status (\<^verbatim>\<open>CalledProcessError\<close>) and has written nothing, or cannot be started.
\<close>

datatype tool_outcome = ToolOk bytes | ToolFails | ToolMissing

record world =
  fs :: "path \<rightharpoonup> bytes"
  trace :: "event list"
  dl_calls :: nat
  tool_calls :: nat
  retrievals :: "nat \<Rightarrow> retrieval"
  tools :: "nat \<Rightarrow> tool_outcome"
  abspath :: "path \<Rightarrow> path"

datatype 'a result = Return 'a world | Raise py_error world

definition emit :: "event \<Rightarrow> world \<Rightarrow> world" where
  "emit e w = w\<lparr>trace := trace w @ [e]\<rparr>"

definition say :: "msg \<Rightarrow> world \<Rightarrow> world" where
  "say m w = emit (Print m) w"

definition write_file :: "path \<Rightarrow> bytes \<Rightarrow> world \<Rightarrow> world" where
  "write_file p content w = w\<lparr>fs := (fs w)(p \<mapsto> content)\<rparr>"

definition os_remove :: "path \<Rightarrow> world \<Rightarrow> unit result" where
  "os_remove p w =
     (if p \<in> dom (fs w) then Return () (w\<lparr>fs := (fs w)(p := None)\<rparr>)
      else Raise (FileNotFoundError p) w)"

text \<open>The world a call ends in, and whether it ended by returning.\<close>

definition world_of :: "'a result \<Rightarrow> world" where
  "world_of r = (case r of Return x w \<Rightarrow> w | Raise e w \<Rightarrow> w)"

definition returned :: "'a result \<Rightarrow> bool" where
  "returned r = (case r of Return x w \<Rightarrow> True | Raise e w \<Rightarrow> False)"

section \<open>ClipRetriever: \<^verbatim>\<open>download_video_from_page\<close>\<close>

definition max_retries :: nat where
  "max_retries = 5"

text \<open>
  The \<^verbatim>\<open>for attempt in range(max_retries)\<close> loop. It ends by \<^verbatim>\<open>break\<close> (the code after
  the loop goes on: \<open>Proceed\<close>) or by \<^verbatim>\<open>return\<close> after \<^verbatim>\<open>browser.close()\<close>
  (\<open>Returned\<close>); a range that runs out also goes on after the loop.
\<close>

datatype nav_result = Proceed | Returned

fun nav_loop :: "(nat \<Rightarrow> nav_outcome) \<Rightarrow> string \<Rightarrow> nat list \<Rightarrow> world \<Rightarrow> nav_result \<times> world" where
  "nav_loop nv url [] w = (Proceed, w)"
| "nav_loop nv url (attempt # rest) w =
     (let w1 = emit (PageGoto url) (say (AttemptToLoad (attempt + 1)) w) in
      case nv attempt of
        Loaded \<Rightarrow> (Proceed, emit WaitForVideo w1)
      | WaitRaises \<Rightarrow>
          (Returned, emit BrowserClose (say ErrorWaitingForVideo (emit WaitForVideo w1)))
      | GotoRaises \<Rightarrow>
          (let w2 = say ErrorLoadingPage w1 in
           if attempt < max_retries - 1
           then nav_loop nv url rest (emit Sleep3 (say Retrying w2))
           else (Returned, emit BrowserClose (say MaxRetriesReached w2))))"

text \<open>\<^verbatim>\<open>open(file_path, 'wb')\<close> creates or empties the file; each chunk is appended.\<close>

definition append_file :: "path \<Rightarrow> bytes \<Rightarrow> world \<Rightarrow> world" where
  "append_file p chunk w =
     w\<lparr>fs := (fs w)(p \<mapsto> (case fs w p of None \<Rightarrow> [] | Some c \<Rightarrow> c) @ chunk)\<rparr>"

definition write_chunks :: "path \<Rightarrow> bytes list \<Rightarrow> world \<Rightarrow> world" where
  "write_chunks p chunks w = foldl (\<lambda>w' chunk. append_file p chunk w') (write_file p [] w) chunks"

text \<open>The body of the \<^verbatim>\<open>with\<close> statement, lines 152 to 203.\<close>

definition download_body :: "retrieval \<Rightarrow> string \<Rightarrow> path \<Rightarrow> world \<Rightarrow> unit result" where
  "download_body r video_page_url file_name w =
     (case start r of
        LaunchRaises \<Rightarrow> Raise PlaywrightError w
      | NewPageRaises \<Rightarrow> Raise PlaywrightError (emit BrowserLaunch w)
      | _ \<Rightarrow>
         (case nav_loop (nav r) video_page_url [0..<max_retries] (emit BrowserLaunch w) of
            (Returned, w1) \<Rightarrow> Return () w1
          | (Proceed, w1) \<Rightarrow>
             (case src r of
                SrcRaises \<Rightarrow> Raise PlaywrightError w1
              | SrcNone \<Rightarrow> Raise VideoSourceNotFound w1
              | Src video_url \<Rightarrow>
                  if video_url = [] then Raise VideoSourceNotFound w1
                  else
                    (let w2 = emit (HttpGet video_url) (say (VideoSourceURL video_url) w1) in
                     case http r of
                       GetRaises \<Rightarrow> Raise RequestsError w2
                     | Response status_code chunks broken \<Rightarrow>
                         if status_code = 200 then
                           (let w3 = write_chunks file_name chunks w2 in
                            if broken then Raise RequestsError w3
                            else Return () (emit BrowserClose (say (DownloadCompleted file_name) w3)))
                         else Return () (emit BrowserClose (say (FailedToDownload status_code) w2))))))"

text \<open>
  \<^verbatim>\<open>with sync_playwright() as p\<close>: the session is entered, the body runs, and the session
  is left whether the body returns or raises.
\<close>

definition with_session :: "(world \<Rightarrow> 'a result) \<Rightarrow> world \<Rightarrow> 'a result" where
  "with_session body w =
     (case body (emit SessionEnter w) of
        Return x w' \<Rightarrow> Return x (emit SessionExit w')
      | Raise e w' \<Rightarrow> Raise e (emit SessionExit w'))"

definition download_video_from_page :: "string \<Rightarrow> path \<Rightarrow> world \<Rightarrow> unit result" where
  "download_video_from_page video_page_url file_name w =
     (let r = retrievals w (dl_calls w);
          w0 = w\<lparr>dl_calls := Suc (dl_calls w)\<rparr>
      in case start r of
           EnterRaises \<Rightarrow> Raise PlaywrightError w0
         | _ \<Rightarrow> with_session (download_body r video_page_url file_name) w0)"

section \<open>OverlayRenderer and Concatenator\<close>

text \<open>
  \<^verbatim>\<open>text.replace(":", r'\:').replace("'", r"\\'")\<close>, and the filter string with the default
  font size and position, which no caller overrides.
\<close>

definition safe_text :: "string \<Rightarrow> string" where
  "safe_text text =
     concat (map (\<lambda>c. if c = CHR 0x27 then [CHR 0x5C, CHR 0x5C, CHR 0x27] else [c])
       (concat (map (\<lambda>c. if c = CHR '':'' then [CHR 0x5C, CHR '':''] else [c]) text)))"

definition drawtext :: "string \<Rightarrow> string" where
  "drawtext text =
     ''drawtext=text='' @ [CHR 0x27] @ safe_text text @ [CHR 0x27]
       @ '':fontcolor=white:fontsize=56:box=1:boxcolor=black@0.5:boxborderw=5:x=10:y=main_h - 60''"

definition overlay_text_on_video :: "path \<Rightarrow> path \<Rightarrow> string \<Rightarrow> world \<Rightarrow> unit result" where
  "overlay_text_on_video input_video output_video text w =
     (let command = [''ffmpeg'', ''-y'', ''-i'', input_video, ''-vf'', drawtext text,
                     ''-codec:a'', ''copy'', output_video];
          w1 = emit (RunTool command (fs w input_video)) (w\<lparr>tool_calls := Suc (tool_calls w)\<rparr>)
      in case tools w (tool_calls w) of
           ToolOk content \<Rightarrow> Return () (say (Overlayed output_video) (write_file output_video content w1))
         | ToolFails \<Rightarrow> Return () (say (ErrorOverlaying output_video) w1)
         | ToolMissing \<Rightarrow> Raise ToolNotFound w1)"

definition manifest_line :: "(path \<Rightarrow> path) \<Rightarrow> path \<Rightarrow> string" where
  "manifest_line ap video = ''file '' @ [CHR 0x27] @ ap video @ [CHR 0x27, CHR 0x0A]"

definition manifest :: "(path \<Rightarrow> path) \<Rightarrow> path list \<Rightarrow> bytes" where
  "manifest ap video_files = concat (map (manifest_line ap) video_files)"

text \<open>
  \<^verbatim>\<open>finally: os.remove(p)\<close>: the file is removed whether the block returned or raised; a
  pending exception is raised again afterwards, unless the removal raises itself.
\<close>

definition finally_remove :: "path \<Rightarrow> unit result \<Rightarrow> unit result" where
  "finally_remove p r =
     (case r of
        Return x w \<Rightarrow> os_remove p w
      | Raise e w \<Rightarrow>
          (case os_remove p w of Return x w' \<Rightarrow> Raise e w' | Raise e' w' \<Rightarrow> Raise e' w'))"

definition concatenate_videos :: "path list \<Rightarrow> path \<Rightarrow> world \<Rightarrow> unit result" where
  "concatenate_videos video_files output_file w =
     (let w1 = write_file ''videos.txt'' (manifest (abspath w) video_files) w;
          command = [''ffmpeg'', ''-y'', ''-f'', ''concat'', ''-safe'', ''0'', ''-i'', ''videos.txt'',
                     ''-c'', ''copy'', output_file];
          w2 = emit (RunTool command (fs w1 ''videos.txt'')) (w1\<lparr>tool_calls := Suc (tool_calls w1)\<rparr>)
      in finally_remove ''videos.txt''
           (case tools w1 (tool_calls w1) of
              ToolOk content \<Rightarrow>
                Return () (say (CreatedFinalVideo output_file) (write_file output_file content w2))
            | ToolFails \<Rightarrow> Return () (say (ErrorConcatenating output_file) w2)
            | ToolMissing \<Rightarrow> Raise ToolNotFound w2))"

section \<open>ReplacementSession: \<^verbatim>\<open>replace_clip\<close> and \<^verbatim>\<open>prompt_for_replacements\<close>\<close>

text \<open>
  \<^verbatim>\<open>video_files[clip_number]\<close>: a Python index may be negative and then counts from the
  end; outside the list it raises \<^verbatim>\<open>IndexError\<close>.
\<close>

definition py_index :: "'a list \<Rightarrow> int \<Rightarrow> nat option" where
  "py_index xs i =
     (let n = int (length xs); j = (if i < 0 then i + n else i)
      in if 0 \<le> j \<and> j < n then Some (nat j) else None)"

text \<open>
  The list is mutated in place in the source; here the new list is returned. The function
  itself returns nothing in either case.
\<close>

definition replace_clip :: "int \<Rightarrow> string \<Rightarrow> path list \<Rightarrow> world \<Rightarrow> (path list) result" where
  "replace_clip clip_number new_url video_files w =
     (case py_index video_files clip_number of
        None \<Rightarrow> Raise IndexError w
      | Some k \<Rightarrow>
         (let original_filename = video_files ! k in
          case re_search name_pattern original_filename of
            None \<Rightarrow> Return video_files (say (CouldNotFindStats original_filename) w)
          | Some gs \<Rightarrow>
             (let off = gs ! 0;
                  deff = gs ! 1;
                  overlay_text = ''Off: '' @ off @ '' Def: '' @ deff;
                  input_video = ''temp_clip_'' @ str_int clip_number @ ''.mp4'';
                  output_video = ''processed_clip_'' @ str_int clip_number @ ''_Off'' @ off
                     @ ''_Def'' @ deff @ ''_Total''
                     @ str_int (int_of_digits off + int_of_digits deff) @ ''.mp4''
              in case download_video_from_page new_url input_video
                        (say (DownloadingReplacement clip_number) w) of
                   Raise e w1 \<Rightarrow> Raise e w1
                 | Return x w1 \<Rightarrow>
                    (case overlay_text_on_video input_video output_video overlay_text
                            (say (ApplyingOverlay clip_number) w1) of
                       Raise e w2 \<Rightarrow> Raise e w2
                     | Return y w2 \<Rightarrow>
                         Return (video_files[k := output_video])
                           (say (ReplacementCompleted clip_number) w2)))))"

text \<open>\<^verbatim>\<open>str.strip()\<close> and \<^verbatim>\<open>str.lower()\<close> on ASCII text.\<close>

definition strip :: "string \<Rightarrow> string" where
  "strip s = rev (dropWhile is_space (rev (dropWhile is_space s)))"

definition lower :: "string \<Rightarrow> string" where
  "lower s =
     map (\<lambda>c. let n = (of_char c :: nat) in if 65 \<le> n \<and> n \<le> 90 then char_of (n + 32) else c) s"

text \<open>
  \<^verbatim>\<open>int(s)\<close> on console input: blanks around, an optional sign, decimal digits with single
  underscores between them; anything else is a \<^verbatim>\<open>ValueError\<close> (\<open>None\<close>).
\<close>

fun valid_int_body :: "string \<Rightarrow> bool" where
  "valid_int_body [] = False"
| "valid_int_body [c] = is_digit c"
| "valid_int_body (c # d # r) =
     (is_digit c \<and> (if d = CHR ''_'' then valid_int_body r else valid_int_body (d # r)))"

definition py_int :: "string \<Rightarrow> int option" where
  "py_int s0 =
     (let s = strip s0;
          neg = (s \<noteq> [] \<and> hd s = CHR ''-'');
          body = (if s \<noteq> [] \<and> (hd s = CHR ''-'' \<or> hd s = CHR ''+'') then tl s else s)
      in if valid_int_body body
         then Some ((if neg then - 1 else 1) * int_of_digits (filter (\<lambda>c. c \<noteq> CHR ''_'') body))
         else None)"

text \<open>
  The \<^verbatim>\<open>while True\<close> loop of \<^verbatim>\<open>prompt_for_replacements\<close>. The lines the user will type
  are the second argument; \<^verbatim>\<open>input()\<close> at the end of input raises \<^verbatim>\<open>EOFError\<close>. Every
  turn of the loop reads at least one line. The question after the \<^verbatim>\<open>try\<close> statement
  stands once in the source and is reached from two places (the end of the \<^verbatim>\<open>try\<close>
  block, the \<^verbatim>\<open>except ValueError\<close> handler); it is written out at both.
\<close>

fun prompt_loop :: "bool \<Rightarrow> string list \<Rightarrow> path list \<Rightarrow> world \<Rightarrow> (bool \<times> path list) result" where
  "prompt_loop replacements_made [] video_files w = Raise EOFError (emit (Ask AskReplaceAny) w)"
| "prompt_loop replacements_made (line1 # ins1) video_files w =
     (let w1 = emit (Ask AskReplaceAny) w in
      if lower (strip line1) \<noteq> ''yes'' then Return (replacements_made, video_files) w1
      else
       (let w2 = emit (Ask (AskClipNumber (length video_files))) w1 in
        case ins1 of
          [] \<Rightarrow> Raise EOFError w2
        | line2 # ins2 \<Rightarrow>
           (case py_int (strip line2) of
              None \<Rightarrow>
               (let w3 = emit (Ask AskReplaceAnother) (say InvalidInput w2) in
                case ins2 of
                  [] \<Rightarrow> Raise EOFError w3
                | line3 # ins3 \<Rightarrow>
                    if lower (strip line3) \<noteq> ''yes'' then Return (replacements_made, video_files) w3
                    else prompt_loop replacements_made ins3 video_files w3)
            | Some n \<Rightarrow>
               (let clip_number = n - 1 in
                if clip_number < 0 \<or> clip_number \<ge> int (length video_files)
                then prompt_loop replacements_made ins2 video_files
                       (say (InvalidClipNumber (length video_files)) w2)
                else
                 (let w3 = emit (Ask (AskNewUrl (clip_number + 1))) w2 in
                  case ins2 of
                    [] \<Rightarrow> Raise EOFError w3
                  | line3 # ins3 \<Rightarrow>
                     (case replace_clip clip_number (strip line3) video_files w3 of
                        Raise e w4 \<Rightarrow> Raise e w4
                      | Return video_files' w4 \<Rightarrow>
                         (let w5 = emit (Ask AskReplaceAnother) w4 in
                          case ins3 of
                            [] \<Rightarrow> Raise EOFError w5
                          | line4 # ins4 \<Rightarrow>
                              if lower (strip line4) \<noteq> ''yes'' then Return (True, video_files') w5
                              else prompt_loop True ins4 video_files' w5)))))))"

definition prompt_for_replacements :: "string list \<Rightarrow> path list \<Rightarrow> world \<Rightarrow> (bool \<times> path list) result" where
  "prompt_for_replacements inputs video_files w = prompt_loop False inputs video_files w"

section \<open>Compiler: the loop and the rest of \<^verbatim>\<open>main\<close>\<close>

text \<open>
  An entry of the list \<^verbatim>\<open>extract_events\<close> returns (its \<^verbatim>\<open>'event'\<close> field, the raw feed
  record, is read by \<^verbatim>\<open>main\<close> and never used).
\<close>

record event_info =
  description :: string
  video_page_url :: string
  event_num :: int

record compilation =
  video_files :: "path list"
  temp_videos :: "path list"
  total_off :: "int option"
  total_def :: "int option"

text \<open>\<^verbatim>\<open>not v\<close> for a value that is \<^verbatim>\<open>None\<close> or an integer.\<close>

definition py_not :: "int option \<Rightarrow> bool" where
  "py_not v = (case v of None \<Rightarrow> True | Some n \<Rightarrow> n = 0)"

text \<open>The test of line 443, \<^verbatim>\<open>if not off and not deff\<close>, on an event.\<close>

definition skipped :: "event_info \<Rightarrow> bool" where
  "skipped ev =
     (case extract_off_def (description ev) of (off, deff) \<Rightarrow> py_not off \<and> py_not deff)"

definition clip_name :: "string \<Rightarrow> nat \<Rightarrow> int \<Rightarrow> int \<Rightarrow> path" where
  "clip_name prefix idx off deff =
     prefix @ str_nat idx @ ''_Off'' @ str_int off @ ''_Def'' @ str_int deff
       @ ''_Total'' @ str_int (off + deff) @ ''.mp4''"

text \<open>
  The \<^verbatim>\<open>for idx, event_info in enumerate(events)\<close> loop, lines 438 to 469; \<open>n\<close> is
  \<^verbatim>\<open>len(events)\<close>. Adding \<^verbatim>\<open>None\<close> to an integer in the file name is a \<^verbatim>\<open>TypeError\<close>.
\<close>

fun main_loop :: "nat \<Rightarrow> (nat \<times> event_info) list \<Rightarrow> compilation \<Rightarrow> world \<Rightarrow> compilation result" where
  "main_loop n [] st w = Return st w"
| "main_loop n ((idx, ev) # rest) st w =
     (case extract_off_def (description ev) of
        (off, deff) \<Rightarrow>
          if py_not off \<and> py_not deff
          then main_loop n rest st (say (SkippingEvent (description ev)) w)
          else
           (let st1 = st\<lparr>total_off := off, total_def := deff\<rparr>;
                w1 = say (VideoPageURL (video_page_url ev))
                       (say (ProcessingEvent (idx + 1) n (event_num ev)) w)
            in case (off, deff) of
                 (Some a, Some b) \<Rightarrow>
                  (let input_video = clip_name ''clip_'' idx a b;
                       output_video = clip_name ''processed_clip_'' idx a b
                   in case download_video_from_page (video_page_url ev) input_video w1 of
                        Raise e w2 \<Rightarrow> Raise e w2
                      | Return x w2 \<Rightarrow>
                         (let st2 = st1\<lparr>temp_videos := temp_videos st1 @ [input_video]\<rparr>;
                              overlay_text = ''Off: '' @ str_int a @ '' Def: '' @ str_int b
                          in case overlay_text_on_video input_video output_video overlay_text w2 of
                               Raise e w3 \<Rightarrow> Raise e w3
                             | Return y w3 \<Rightarrow>
                                 main_loop n rest
                                   (st2\<lparr>video_files := video_files st2 @ [output_video]\<rparr>)
                                   (emit SleepRandom (say Waiting w3))))
               | _ \<Rightarrow> Raise TypeError w1))"

text \<open>\<^verbatim>\<open>for video in all_clips: os.remove(video)\<close>.\<close>

fun remove_all :: "path list \<Rightarrow> world \<Rightarrow> unit result" where
  "remove_all [] w = Return () w"
| "remove_all (video # rest) w =
     (case os_remove video w of Raise e w' \<Rightarrow> Raise e w' | Return x w' \<Rightarrow> remove_all rest w')"

definition the_int :: "int option \<Rightarrow> int" where
  "the_int v = (case v of None \<Rightarrow> 0 | Some n \<Rightarrow> n)"

text \<open>
  \<^verbatim>\<open>main\<close> from line 426 on, once the feed has answered: the team codes, the date and the
  selected events are given, and so are the lines the user will type in the replacement
  session. After the loop both totals are integers (they start as 0 and are only
  overwritten by a processed event's pair), which \<open>the_int\<close> reads.
\<close>

definition main_from_events ::
    "string \<Rightarrow> string \<Rightarrow> string \<Rightarrow> event_info list \<Rightarrow> string list \<Rightarrow> world \<Rightarrow> unit result" where
  "main_from_events away_team home_team game_date events inputs w =
     (if events = [] then Return () (say NoMatchingEvents w)
      else
       case main_loop (length events) (enumerate 0 events)
              \<lparr>video_files = [], temp_videos = [], total_off = Some 0, total_def = Some 0\<rparr> w of
         Raise e w1 \<Rightarrow> Raise e w1
       | Return st w1 \<Rightarrow>
          if video_files st = [] then Return () (say NoVideosProcessed w1)
          else
           (let t_off = the_int (total_off st);
                t_def = the_int (total_def st);
                total_rebounds = t_off + t_def;
                output_filename = away_team @ ''_'' @ home_team @ ''_''
                  @ map (\<lambda>c. if c = CHR ''/'' then CHR ''_'' else c) game_date
                  @ ''_Off'' @ str_int t_off @ ''_Def'' @ str_int t_def
                  @ ''_Total'' @ str_int total_rebounds @ ''.mp4''
            in case concatenate_videos (video_files st) output_filename w1 of
                 Raise e w2 \<Rightarrow> Raise e w2
               | Return x w2 \<Rightarrow>
                  (case prompt_for_replacements inputs (video_files st) w2 of
                     Raise e w3 \<Rightarrow> Raise e w3
                   | Return (replacements_made, files) w3 \<Rightarrow>
                      (case (if replacements_made
                             then concatenate_videos files output_filename (say ReplacementsWereMade w3)
                             else Return () w3) of
                         Raise e w4 \<Rightarrow> Raise e w4
                       | Return y w4 \<Rightarrow>
                          (case remove_all (temp_videos st @ files) w4 of
                             Raise e w5 \<Rightarrow> Raise e w5
                           | Return z w5 \<Rightarrow>
                               Return ()
                                 (say AllDone
                                   (say (SummaryTikTok away_team home_team game_date t_off t_def total_rebounds)
                                     (say (SummaryTweet away_team home_team game_date t_off t_def total_rebounds)
                                        w5))))))))"

section \<open>Concrete surroundings for the examples\<close>

text \<open>
  A retrieval in which everything works and the body arrives in one chunk; a world with an
  empty working directory in which every retrieval and every ffmpeg run works.
\<close>

definition good_retrieval :: "bytes \<Rightarrow> retrieval" where
  "good_retrieval body =
     \<lparr>start = Started, nav = (\<lambda>attempt. Loaded), src = Src ''https://cdn/clip.mp4'',
      http = Response 200 [body] False\<rparr>"

definition calm_world :: world where
  "calm_world =
     \<lparr>fs = Map.empty, trace = [], dl_calls = 0, tool_calls = 0,
      retrievals = (\<lambda>n. good_retrieval ''raw''), tools = (\<lambda>n. ToolOk ''video''),
      abspath = (\<lambda>p. ''/work/'' @ p)\<rparr>"

definition empty_body_world :: world where
  "empty_body_world =
     calm_world\<lparr>retrievals :=
       (\<lambda>n. \<lparr>start = Started, nav = (\<lambda>attempt. Loaded), src = Src ''https://cdn/clip.mp4'',
             http = Response 200 [] False\<rparr>)\<rparr>"

definition not_found_world :: world where
  "not_found_world =
     calm_world\<lparr>retrievals :=
       (\<lambda>n. \<lparr>start = Started, nav = (\<lambda>attempt. Loaded), src = Src ''https://cdn/clip.mp4'',
             http = Response 404 [''gone''] False\<rparr>)\<rparr>"

definition no_source_world :: world where
  "no_source_world =
     calm_world\<lparr>retrievals :=
       (\<lambda>n. \<lparr>start = Started, nav = (\<lambda>attempt. Loaded), src = SrcNone,
             http = Response 200 [''raw''] False\<rparr>)\<rparr>"

definition fresh :: compilation where
  "fresh = \<lparr>video_files = [], temp_videos = [], total_off = Some 0, total_def = Some 0\<rparr>"

definition zero_event :: event_info where
  "zero_event =
     \<lparr>description = ''Hart REBOUND (Off:0 Def:0)'', video_page_url = ''u0'', event_num = 5\<rparr>"

definition sample_events :: "event_info list" where
  "sample_events =
     [\<lparr>description = ''Hart REBOUND (Off:2 Def:1)'', video_page_url = ''u1'', event_num = 11\<rparr>,
      \<lparr>description = ''Hart REBOUND'', video_page_url = ''u2'', event_num = 12\<rparr>,
      \<lparr>description = ''Hart REBOUND (Off:1 Def:0)'', video_page_url = ''u3'', event_num = 13\<rparr>]"

definition one_event :: "event_info list" where
  "one_event =
     [\<lparr>description = ''Hart REBOUND (Off:1 Def:2)'', video_page_url = ''u1'', event_num = 7\<rparr>]"



text \<open>The file list the loop builds from \<open>sample_events\<close>.\<close>

definition two_files :: "path list" where
  "two_files = [''processed_clip_0_Off2_Def1_Total3.mp4'', ''processed_clip_2_Off1_Def0_Total1.mp4'']"

section \<open>Lemmas about the world and the navigation loop\<close>

lemma emit_fields [simp]:
  "fs (emit e w) = fs w" "trace (emit e w) = trace w @ [e]"
  "dl_calls (emit e w) = dl_calls w" "tool_calls (emit e w) = tool_calls w"
  "retrievals (emit e w) = retrievals w" "tools (emit e w) = tools w"
  "abspath (emit e w) = abspath w"
  by (simp_all add: emit_def)

lemma say_fields [simp]:
  "fs (say m w) = fs w" "trace (say m w) = trace w @ [Print m]"
  "dl_calls (say m w) = dl_calls w" "tool_calls (say m w) = tool_calls w"
  "retrievals (say m w) = retrievals w" "tools (say m w) = tools w"
  "abspath (say m w) = abspath w"
  by (simp_all add: say_def)

lemma write_file_fields [simp]:
  "fs (write_file p c w) = (fs w)(p \<mapsto> c)" "trace (write_file p c w) = trace w"
  "dl_calls (write_file p c w) = dl_calls w" "tool_calls (write_file p c w) = tool_calls w"
  "retrievals (write_file p c w) = retrievals w" "tools (write_file p c w) = tools w"
  "abspath (write_file p c w) = abspath w"
  by (simp_all add: write_file_def)

lemma append_chunks:
  "fs w p = Some c \<Longrightarrow>
   fs (foldl (\<lambda>w' chunk. append_file p chunk w') w chunks) = (fs w)(p \<mapsto> c @ concat chunks) \<and>
   trace (foldl (\<lambda>w' chunk. append_file p chunk w') w chunks) = trace w"
proof (induction chunks arbitrary: w c)
  case Nil
  then show ?case by (simp add: fun_upd_idem)
next
  case (Cons chunk chunks)
  have "fs (append_file p chunk w) p = Some (c @ chunk)"
    using Cons.prems by (simp add: append_file_def)
  from Cons.IH [OF this] show ?case
    by (auto simp: append_file_def fun_eq_iff)
qed

lemma write_chunks_fields [simp]:
  "fs (write_chunks p chunks w) = (fs w)(p \<mapsto> concat chunks)"
  "trace (write_chunks p chunks w) = trace w"
  using append_chunks [of "write_file p [] w" p "[]" chunks]
  by (simp_all add: write_chunks_def)

text \<open>What the navigation loop adds to the trace; it touches nothing else.\<close>

lemma nav_loop_effect:
  "nav_loop nv url attempts w = (res, w') \<Longrightarrow>
   \<exists>new. w' = w\<lparr>trace := trace w @ new\<rparr> \<and>
     SessionEnter \<notin> set new \<and> SessionExit \<notin> set new \<and> BrowserLaunch \<notin> set new \<and>
     (\<forall>u. HttpGet u \<notin> set new) \<and>
     (\<forall>p. Print (DownloadCompleted p) \<notin> set new) \<and>
     (\<forall>s. Print (FailedToDownload s) \<notin> set new) \<and>
     (if res = Returned
      then (\<exists>m. new = m @ [BrowserClose] \<and> BrowserClose \<notin> set m) \<and>
           (Print MaxRetriesReached \<in> set new \<or> Print ErrorWaitingForVideo \<in> set new)
      else BrowserClose \<notin> set new)"
proof (induction attempts arbitrary: w)
  case Nil
  then show ?case by (intro exI [of _ "[]"]) auto
next
  case (Cons attempt rest)
  show ?case
  proof (cases "nv attempt")
    case Loaded
    with Cons.prems show ?thesis
      by (intro exI [of _ "[Print (AttemptToLoad (attempt + 1)), PageGoto url, WaitForVideo]"])
         (auto simp: emit_def say_def)
  next
    case WaitRaises
    with Cons.prems show ?thesis
      by (intro exI [of _ "[Print (AttemptToLoad (attempt + 1)), PageGoto url, WaitForVideo,
            Print ErrorWaitingForVideo, BrowserClose]"])
         (auto simp: emit_def say_def)
  next
    case GotoRaises
    show ?thesis
    proof (cases "attempt < max_retries - 1")
      case True
      let ?pre = "[Print (AttemptToLoad (attempt + 1)), PageGoto url,
                   Print ErrorLoadingPage, Print Retrying, Sleep3]"
      let ?w = "emit Sleep3 (say Retrying (say ErrorLoadingPage
                  (emit (PageGoto url) (say (AttemptToLoad (attempt + 1)) w))))"
      from Cons.prems GotoRaises True have "nav_loop nv url rest ?w = (res, w')"
        by (simp add: Let_def)
      from Cons.IH [OF this] obtain new where
        n: "w' = ?w\<lparr>trace := trace ?w @ new\<rparr>"
          "SessionEnter \<notin> set new" "SessionExit \<notin> set new" "BrowserLaunch \<notin> set new"
          "\<forall>u. HttpGet u \<notin> set new"
          "\<forall>p. Print (DownloadCompleted p) \<notin> set new"
          "\<forall>s. Print (FailedToDownload s) \<notin> set new"
          "if res = Returned
           then (\<exists>m. new = m @ [BrowserClose] \<and> BrowserClose \<notin> set m) \<and>
                (Print MaxRetriesReached \<in> set new \<or> Print ErrorWaitingForVideo \<in> set new)
           else BrowserClose \<notin> set new"
        by blast
      have w': "w' = w\<lparr>trace := trace w @ (?pre @ new)\<rparr>"
        using n(1) by (simp add: emit_def say_def)
      have c: "if res = Returned
           then (\<exists>m. ?pre @ new = m @ [BrowserClose] \<and> BrowserClose \<notin> set m) \<and>
                (Print MaxRetriesReached \<in> set (?pre @ new) \<or> Print ErrorWaitingForVideo \<in> set (?pre @ new))
           else BrowserClose \<notin> set (?pre @ new)"
      proof (cases "res = Returned")
        case True
        with n(8) obtain m where m: "new = m @ [BrowserClose]" "BrowserClose \<notin> set m"
          and p: "Print MaxRetriesReached \<in> set new \<or> Print ErrorWaitingForVideo \<in> set new"
          by auto
        have "?pre @ new = (?pre @ m) @ [BrowserClose] \<and> BrowserClose \<notin> set (?pre @ m)"
          using m by simp
        then have "\<exists>m'. ?pre @ new = m' @ [BrowserClose] \<and> BrowserClose \<notin> set m'"
          by blast
        with True p show ?thesis by auto
      next
        case False
        with n(8) show ?thesis by simp
      qed
      show ?thesis
        using w' n(2-7) c by (intro exI [of _ "?pre @ new"]) simp
    next
      case False
      with Cons.prems GotoRaises show ?thesis
        by (intro exI [of _ "[Print (AttemptToLoad (attempt + 1)), PageGoto url,
              Print ErrorLoadingPage, Print MaxRetriesReached, BrowserClose]"])
           (auto simp: emit_def say_def Let_def)
    qed
  qed
qed

section \<open>Lemmas about the matcher\<close>

lemma strip_prefix_append: "strip_prefix l (l @ s) = Some s"
  by (induction l) auto



lemma try_down_Some_D:
  "try_down f lo hi = Some r \<Longrightarrow> \<exists>n. lo \<le> n \<and> n \<le> hi \<and> f n = Some r"
proof (induction hi)
  case 0
  then show ?case by (auto split: if_splits)
next
  case (Suc hi)
  show ?case
  proof (cases "f (Suc hi)")
    case None
    with Suc.prems have "try_down f lo hi = Some r"
      by (auto split: if_splits)
    from Suc.IH [OF this] show ?thesis
      by (meson le_Suc_eq)
  next
    case (Some a)
    with Suc.prems show ?thesis
      by (auto split: if_splits intro!: exI [of _ "Suc hi"])
  qed
qed

lemma try_down_top: "lo \<le> hi \<Longrightarrow> f hi = Some r \<Longrightarrow> try_down f lo hi = Some r"
  by (cases hi) auto



lemma take_takeWhile_all:
  "n \<le> length (takeWhile P s) \<Longrightarrow> list_all P (take n s)"
proof -
  assume n: "n \<le> length (takeWhile P s)"
  have "take n s = take n (takeWhile P s @ dropWhile P s)"
    by simp
  also have "\<dots> = take n (takeWhile P s)"
    using n by (simp del: takeWhile_dropWhile_id)
  finally have "take n s = take n (takeWhile P s)" .
  moreover have "list_all P (takeWhile P s)"
    by (simp add: list_all_iff) (meson set_takeWhileD)
  ultimately show ?thesis
    by (auto simp: list_all_iff dest: in_set_takeD)
qed

lemma take_nonempty: "1 \<le> n \<Longrightarrow> n \<le> length (takeWhile P s) \<Longrightarrow> take n s \<noteq> []"
  by (cases s) auto

text \<open>Every group a match captures is a non-empty string of digits.\<close>

lemma match_items_groups:
  "match_items pat s = Some (gs, r) \<Longrightarrow>
   list_all digit_string gs \<and> length gs = length (filter (\<lambda>i. i = Digits1) pat)"
proof (induction pat arbitrary: s gs r)
  case Nil
  then show ?case by simp
next
  case (Cons i pat)
  show ?case
  proof (cases i)
    case (Lit l)
    with Cons.prems obtain s' where "match_items pat s' = Some (gs, r)"
      by (auto split: option.splits)
    from Cons.IH [OF this] Lit show ?thesis by simp
  next
    case Digits1
    with Cons.prems obtain n where n: "1 \<le> n" "n \<le> length (takeWhile is_digit s)"
      and m: "(case match_items pat (drop n s) of None \<Rightarrow> None
               | Some (gs', r') \<Rightarrow> Some (take n s # gs', r')) = Some (gs, r)"
      by (auto dest!: try_down_Some_D)
    from m obtain gs' where g: "gs = take n s # gs'" and m': "match_items pat (drop n s) = Some (gs', r)"
      by (auto split: option.splits)
    have "digit_string (take n s)"
      using take_nonempty [OF n] take_takeWhile_all [OF n(2)] by (simp add: digit_string_def)
    with Cons.IH [OF m'] g Digits1 show ?thesis by simp
  next
    case Spaces0
    with Cons.prems obtain n where "match_items pat (drop n s) = Some (gs, r)"
      by (auto dest!: try_down_Some_D)
    from Cons.IH [OF this] Spaces0 show ?thesis by simp
  qed
qed

lemma re_search_Some_D:
  "re_search pat s = Some gs \<Longrightarrow> \<exists>pre s' r. s = pre @ s' \<and> match_items pat s' = Some (gs, r)"
proof (induction s)
  case Nil
  then show ?case by auto
next
  case (Cons c cs)
  show ?case
  proof (cases "match_items pat (c # cs)")
    case None
    with Cons.prems have "re_search pat cs = Some gs" by simp
    from Cons.IH [OF this] obtain pre s' r where "cs = pre @ s'" "match_items pat s' = Some (gs, r)"
      by blast
    then have "c # cs = (c # pre) @ s' \<and> match_items pat s' = Some (gs, r)" by simp
    then show ?thesis by blast
  next
    case (Some a)
    with Cons.prems have "match_items pat (c # cs) = Some (gs, snd a)"
      by (cases a) auto
    then have "c # cs = [] @ (c # cs) \<and> match_items pat (c # cs) = Some (gs, snd a)" by simp
    then show ?thesis by blast
  qed
qed

lemma re_search_groups:
  "re_search pat s = Some gs \<Longrightarrow>
   list_all digit_string gs \<and> length gs = length (filter (\<lambda>i. i = Digits1) pat)"
  using re_search_Some_D match_items_groups by blast


lemma takeWhile_stop:
  "list_all P a \<Longrightarrow> s = [] \<or> \<not> P (hd s) \<Longrightarrow> takeWhile P (a @ s) = a"
  by (cases s) (auto simp: list_all_iff)

lemma match_Lit: "match_items (Lit l # pat) (l @ s) = match_items pat s"
  by (simp add: strip_prefix_append)

lemma match_Digits1_greedy:
  assumes "digit_string a" and "s = [] \<or> \<not> is_digit (hd s)"
    and "match_items pat s = Some (gs, r)"
  shows "match_items (Digits1 # pat) (a @ s) = Some (a # gs, r)"
proof -
  have t: "takeWhile is_digit (a @ s) = a"
    using assms(1,2) by (simp add: takeWhile_stop digit_string_def)
  have l: "1 \<le> length a"
    using assms(1) by (cases a) (auto simp: digit_string_def)
  show ?thesis
    using t l assms(3) by (simp add: try_down_top)
qed



lemma re_search_skip:
  "(\<And>c s'. c \<in> set pre \<Longrightarrow> match_items pat (c # s') = None) \<Longrightarrow>
   re_search pat (pre @ s) = re_search pat s"
  by (induction pre) auto

lemma re_search_here:
  "match_items pat s = Some (gs, r) \<Longrightarrow> re_search pat s = Some gs"
  by (cases s) auto


subsection \<open>Decimal numbers\<close>

lemma is_digit_char_of: "(d::nat) < 10 \<Longrightarrow> is_digit (char_of (48 + d))"
  by (simp add: is_digit_def)

lemma digit_val_char_of: "(d::nat) < 10 \<Longrightarrow> digit_val (char_of (48 + d)) = int d"
  by (simp add: digit_val_def)

lemma str_nat_digits: "digit_string (str_nat n)"
proof (induction n rule: str_nat.induct)
  case (1 n)
  show ?case
  proof (cases "n < 10")
    case True
    then show ?thesis
      by (subst str_nat.simps) (simp add: digit_string_def is_digit_char_of)
  next
    case False
    with "1.IH" have "digit_string (str_nat (n div 10))" by simp
    moreover have "is_digit (char_of (48 + n mod 10))"
      by (rule is_digit_char_of) simp
    ultimately show ?thesis
      using False by (subst str_nat.simps) (simp add: digit_string_def)
  qed
qed

lemma int_of_digits_snoc: "int_of_digits (ds @ [c]) = 10 * int_of_digits ds + digit_val c"
  by (simp add: int_of_digits_def)

lemma int_of_digits_str_nat: "int_of_digits (str_nat n) = int n"
proof (induction n rule: str_nat.induct)
  case (1 n)
  show ?case
  proof (cases "n < 10")
    case True
    then show ?thesis
      by (subst str_nat.simps) (simp add: int_of_digits_def digit_val_char_of)
  next
    case False
    with "1.IH" have "int_of_digits (str_nat (n div 10)) = int (n div 10)" by simp
    moreover have "digit_val (char_of (48 + n mod 10)) = int (n mod 10)"
      by (rule digit_val_char_of) simp
    moreover have "10 * int (n div 10) + int (n mod 10) = int n"
    proof -
      have "10 * (n div 10) + n mod 10 = n" by simp
      then have "int (10 * (n div 10) + n mod 10) = int n" by (rule arg_cong)
      then show ?thesis by (simp only: of_nat_add of_nat_mult of_nat_numeral)
    qed
    ultimately show ?thesis
      using False by (subst str_nat.simps) (simp add: int_of_digits_snoc)
  qed
qed

lemma int_of_digits_nonneg: "list_all is_digit ds \<Longrightarrow> 0 \<le> int_of_digits ds"
proof (induction ds rule: rev_induct)
  case Nil
  then show ?case by (simp add: int_of_digits_def)
next
  case (snoc c ds)
  then have "0 \<le> int_of_digits ds" and "0 \<le> digit_val c"
    by (simp_all add: is_digit_def digit_val_def Let_def)
  then show ?case by (simp add: int_of_digits_snoc)
qed

lemma str_int_nonneg: "0 \<le> i \<Longrightarrow> digit_string (str_int i) \<and> int_of_digits (str_int i) = i"
  by (simp add: str_int_def str_nat_digits int_of_digits_str_nat)

lemma no_O_in_str_int: "CHR ''O'' \<notin> set (str_int i)"
proof -
  have "\<And>n. CHR ''O'' \<notin> set (str_nat n)"
  proof
    fix n
    assume "CHR ''O'' \<in> set (str_nat n)"
    moreover have "list_all is_digit (str_nat n)"
      using str_nat_digits [of n] by (simp add: digit_string_def)
    ultimately have "is_digit CHR ''O''"
      by (simp add: list_all_iff)
    then show False by (simp add: is_digit_def)
  qed
  then show ?thesis by (simp add: str_int_def)
qed

section \<open>C1: which events the loop skips\<close>

text \<open>
  C1. The loop skips an event when \<^verbatim>\<open>not off and not deff\<close> holds, which is true of
  \<^verbatim>\<open>None\<close> and of 0 alike. A description with the parseable pair (0, 0) is therefore
  skipped: nothing is retrieved, nothing is appended, and the line printed says that the
  values are missing.
\<close>

theorem main_loop_skips_zero_pair:
  "extract_off_def (description zero_event) = (Some 0, Some 0) \<and>
   main_loop 1 (enumerate 0 [zero_event]) fresh calm_world =
     Return fresh
       (calm_world\<lparr>trace := [Print (SkippingEvent ''Hart REBOUND (Off:0 Def:0)'')]\<rparr>)"
proof -
  have e: "extract_off_def ''Hart REBOUND (Off:0 Def:0)'' = (Some 0, Some 0)"
    by code_simp
  show ?thesis
    using e by (simp add: zero_event_def enumerate_eq_zip py_not_def say_def emit_def calm_world_def)
qed

section \<open>C2: what \<^verbatim>\<open>extract_off_def\<close> finds\<close>














section \<open>C3: the running totals are the last pair seen\<close>

lemma main_loop_skip:
  "skipped ev \<Longrightarrow>
   main_loop n ((idx, ev) # rest) st w = main_loop n rest st (say (SkippingEvent (description ev)) w)"
  by (simp add: skipped_def split: prod.splits)

lemma main_loop_process:
  assumes "\<not> skipped ev" and "main_loop n ((idx, ev) # rest) st w = Return st' w'"
  shows "\<exists>st2 w2. main_loop n rest st2 w2 = Return st' w' \<and>
           (total_off st2, total_def st2) = extract_off_def (description ev)"
proof -
  obtain off deff where e: "extract_off_def (description ev) = (off, deff)"
    by (cases "extract_off_def (description ev)") auto
  have ns: "\<not> (py_not off \<and> py_not deff)"
    using assms(1) e by (simp add: skipped_def)
  show ?thesis
    using assms(2) e ns
    by (auto simp: Let_def split: option.splits result.splits)
qed

lemma main_loop_totals:
  assumes "main_loop n evs st w = Return st' w'"
  shows "(total_off st', total_def st') =
           (let ps = filter (\<lambda>(idx, ev). \<not> skipped ev) evs
            in if ps = [] then (total_off st, total_def st)
               else extract_off_def (description (snd (last ps))))"
  using assms
proof (induction evs arbitrary: st w)
  case Nil
  then show ?case by simp
next
  case (Cons p rest)
  obtain idx ev where p: "p = (idx, ev)"
    by (cases p) auto
  show ?case
  proof (cases "skipped ev")
    case True
    then have "main_loop n rest st (say (SkippingEvent (description ev)) w) = Return st' w'"
      using Cons.prems p main_loop_skip [OF True, of n idx rest st w] by (simp del: main_loop.simps)
    from Cons.IH [OF this] show ?thesis
      using True p by simp
  next
    case False
    from main_loop_process [OF False] Cons.prems p obtain st2 w2 where
      r: "main_loop n rest st2 w2 = Return st' w'"
      and t: "(total_off st2, total_def st2) = extract_off_def (description ev)"
      by blast
    from Cons.IH [OF r] t show ?thesis
      using False p by (simp add: Let_def)
  qed
qed

text \<open>
  C3. When the loop has run through, the running totals are the pair of the last event it
  did not skip (and what they were before the loop when it skipped all of them): each
  processed event overwrites them, nothing is added up. In particular, of two entries of
  which one has no parseable pair and the other is processed, the totals are the pair of
  the processed one.
\<close>

theorem totals_are_last_seen:
  "(main_loop n evs st w = Return st' w' \<longrightarrow>
      (total_off st', total_def st') =
        (let ps = filter (\<lambda>(idx, ev). \<not> skipped ev) evs
         in if ps = [] then (total_off st, total_def st)
            else extract_off_def (description (snd (last ps))))) \<and>
   (main_loop n [(i, e1), (j, e2)] st w = Return st2 w2 \<and>
    (extract_off_def (description e1) = (None, None) \<and> \<not> skipped e2 \<and> p = e2 \<or>
     extract_off_def (description e2) = (None, None) \<and> \<not> skipped e1 \<and> p = e1) \<longrightarrow>
      (total_off st2, total_def st2) = extract_off_def (description p))"
proof (intro conjI impI)
  assume "main_loop n evs st w = Return st' w'"
  then show "(total_off st', total_def st') =
        (let ps = filter (\<lambda>(idx, ev). \<not> skipped ev) evs
         in if ps = [] then (total_off st, total_def st)
            else extract_off_def (description (snd (last ps))))"
    by (rule main_loop_totals)
next
  assume h: "main_loop n [(i, e1), (j, e2)] st w = Return st2 w2 \<and>
    (extract_off_def (description e1) = (None, None) \<and> \<not> skipped e2 \<and> p = e2 \<or>
     extract_off_def (description e2) = (None, None) \<and> \<not> skipped e1 \<and> p = e1)"
  then have r: "main_loop n [(i, e1), (j, e2)] st w = Return st2 w2"
    by simp
  from h consider
      "extract_off_def (description e1) = (None, None)" "\<not> skipped e2" "p = e2"
    | "extract_off_def (description e2) = (None, None)" "\<not> skipped e1" "p = e1"
    by blast
  then show "(total_off st2, total_def st2) = extract_off_def (description p)"
  proof cases
    case 1
    then have "skipped e1"
      by (simp add: skipped_def py_not_def)
    with 1 main_loop_totals [OF r] show ?thesis
      by (simp add: Let_def)
  next
    case 2
    then have "skipped e2"
      by (simp add: skipped_def py_not_def)
    with 2 main_loop_totals [OF r] show ?thesis
      by (simp add: Let_def)
  qed
qed

theorem totals_are_last_seen_witness:
  "(\<exists>st' w'. main_loop 3 (enumerate 0 sample_events) fresh calm_world = Return st' w' \<and>
      (total_off st', total_def st') = (Some 1, Some 0) \<and>
      video_files st' = [''processed_clip_0_Off2_Def1_Total3.mp4'', ''processed_clip_2_Off1_Def0_Total1.mp4'']) \<and>
   (\<exists>st2 w2. main_loop 2 [(0, sample_events ! 1), (1, sample_events ! 0)] fresh calm_world = Return st2 w2 \<and>
      (total_off st2, total_def st2) = (Some 2, Some 1))"
proof -
  obtain st' w' where r: "main_loop 3 (enumerate 0 sample_events) fresh calm_world = Return st' w'"
    and v: "video_files st' = [''processed_clip_0_Off2_Def1_Total3.mp4'', ''processed_clip_2_Off1_Def0_Total1.mp4'']"
  proof -
    have "case main_loop 3 (enumerate 0 sample_events) fresh calm_world of
            Return st' w' \<Rightarrow> video_files st' = [''processed_clip_0_Off2_Def1_Total3.mp4'', ''processed_clip_2_Off1_Def0_Total1.mp4'']
          | Raise e w' \<Rightarrow> False"
      by code_simp
    then show ?thesis
      using that by (auto split: result.splits)
  qed
  have s: "filter (\<lambda>(idx, ev). \<not> skipped ev) (enumerate 0 sample_events) = [(0, sample_events ! 0), (2, sample_events ! 2)]"
    by code_simp
  have e: "extract_off_def (description (sample_events ! 2)) = (Some 1, Some 0)"
    by code_simp
  from totals_are_last_seen [of 3 "enumerate 0 sample_events" fresh calm_world st' w'] r s e
  have t: "(total_off st', total_def st') = (Some 1, Some 0)"
    by simp
  have "returned (main_loop 2 [(0, sample_events ! 1), (1, sample_events ! 0)] fresh calm_world)"
    by code_simp
  then obtain st2 w2 where
    r2: "main_loop 2 [(0, sample_events ! 1), (1, sample_events ! 0)] fresh calm_world = Return st2 w2"
    by (auto simp: returned_def split: result.splits)
  have u: "extract_off_def (description (sample_events ! 1)) = (None, None)"
    and n: "\<not> skipped (sample_events ! 0)"
    and e0: "extract_off_def (description (sample_events ! 0)) = (Some 2, Some 1)"
    by code_simp+
  from totals_are_last_seen [where n = 2 and i = 0 and ?e1.0 = "sample_events ! 1" and j = 1
      and ?e2.0 = "sample_events ! 0" and st = fresh and w = calm_world and ?st2.0 = st2
      and ?w2.0 = w2 and p = "sample_events ! 0"] r2 u n e0
  have t2: "(total_off st2, total_def st2) = (Some 2, Some 1)"
    by simp
  from r v t r2 t2 show ?thesis by blast
qed

section \<open>C4: a replacement changes one entry\<close>

lemma match_name_exact:
  assumes "digit_string a" "digit_string b" "digit_string c"
    and "rest = [] \<or> \<not> is_digit (hd rest)"
  shows "match_items name_pattern (''Off'' @ a @ ''_Def'' @ b @ ''_Total'' @ c @ rest) = Some ([a, b, c], rest)"
proof -
  have 1: "match_items [Digits1] (c @ rest) = Some ([c], rest)"
    using assms(3,4) by (intro match_Digits1_greedy) simp_all
  have 2: "match_items [Lit ''_Total'', Digits1] (''_Total'' @ c @ rest) = Some ([c], rest)"
    using 1 by (simp only: match_Lit)
  have 3: "match_items [Digits1, Lit ''_Total'', Digits1] (b @ ''_Total'' @ c @ rest) = Some ([b, c], rest)"
    using assms(2) 2 by (intro match_Digits1_greedy) (simp_all add: is_digit_def)
  have 4: "match_items [Lit ''_Def'', Digits1, Lit ''_Total'', Digits1] (''_Def'' @ b @ ''_Total'' @ c @ rest)
             = Some ([b, c], rest)"
    using 3 by (simp only: match_Lit)
  have 5: "match_items [Digits1, Lit ''_Def'', Digits1, Lit ''_Total'', Digits1]
             (a @ ''_Def'' @ b @ ''_Total'' @ c @ rest) = Some ([a, b, c], rest)"
    using assms(1) 4 by (intro match_Digits1_greedy) (simp_all add: is_digit_def)
  show ?thesis
    unfolding name_pattern_def using 5 by (simp only: match_Lit)
qed

lemma name_roundtrip:
  assumes "digit_string a" "digit_string b" "digit_string c"
  shows "re_search name_pattern
           (''processed_clip_'' @ str_int k @ ''_Off'' @ a @ ''_Def'' @ b @ ''_Total'' @ c @ ''.mp4'')
         = Some [a, b, c]"
proof -
  let ?pre = "''processed_clip_'' @ str_int k @ ''_''"
  let ?s = "''Off'' @ a @ ''_Def'' @ b @ ''_Total'' @ c @ ''.mp4''"
  have skip: "\<And>ch s'. ch \<in> set ?pre \<Longrightarrow> match_items name_pattern (ch # s') = None"
  proof -
    fix ch s'
    assume "ch \<in> set ?pre"
    then have "ch \<noteq> CHR ''O''"
      using no_O_in_str_int [of k] by auto
    then show "match_items name_pattern (ch # s') = None"
      by (simp add: name_pattern_def)
  qed
  have "re_search name_pattern (?pre @ ?s) = re_search name_pattern ?s"
    using skip by (rule re_search_skip)
  also have "\<dots> = Some [a, b, c]"
    using match_name_exact [OF assms, of "''.mp4''"]
    by (intro re_search_here [of _ _ _ "''.mp4''"]) (simp add: is_digit_def)
  finally show ?thesis by simp
qed

text \<open>
  C4. A call of \<^verbatim>\<open>replace_clip\<close> at a valid position \<open>k\<close> that returns leaves the list
  with its length and with every entry other than the one at \<open>k\<close> as it was. When the old
  name at \<open>k\<close> carries no statistics the list is unchanged altogether. Otherwise the new
  name at \<open>k\<close> is built from the two groups \<open>Off\<close> and \<open>Def\<close> read out of the old name:
  reading the new name with the same pattern gives these two groups again, and a third,
  \<open>Total\<close>, whose value is the sum of theirs.
\<close>

theorem replace_clip_changes_only_position_k:
  assumes "0 \<le> k" and "k < int (length files)"
    and "replace_clip k url files w = Return files' w'"
  shows "length files' = length files \<and>
         (\<forall>j < length files. j \<noteq> nat k \<longrightarrow> files' ! j = files ! j) \<and>
         (case re_search name_pattern (files ! nat k) of
            None \<Rightarrow> files' = files
          | Some gs \<Rightarrow>
              files' ! nat k =
                ''processed_clip_'' @ str_int k @ ''_Off'' @ gs ! 0 @ ''_Def'' @ gs ! 1 @ ''_Total''
                  @ str_int (int_of_digits (gs ! 0) + int_of_digits (gs ! 1)) @ ''.mp4'' \<and>
              (\<exists>tot. re_search name_pattern (files' ! nat k) = Some [gs ! 0, gs ! 1, tot] \<and>
                     int_of_digits tot = int_of_digits (gs ! 0) + int_of_digits (gs ! 1)))"
proof -
  have i: "py_index files k = Some (nat k)"
    using assms(1,2) by (simp add: py_index_def)
  show ?thesis
  proof (cases "re_search name_pattern (files ! nat k)")
    case None
    with assms(3) i show ?thesis
      by (simp add: replace_clip_def)
  next
    case (Some gs)
    let ?off = "gs ! 0" and ?deff = "gs ! 1"
    let ?sum = "int_of_digits ?off + int_of_digits ?deff"
    let ?new = "''processed_clip_'' @ str_int k @ ''_Off'' @ ?off @ ''_Def'' @ ?deff @ ''_Total''
                  @ str_int ?sum @ ''.mp4''"
    from re_search_groups [OF Some] have g: "list_all digit_string gs" "length gs = 3"
      by (simp_all add: name_pattern_def)
    then have d: "digit_string ?off" "digit_string ?deff"
      by (simp_all add: list_all_length)
    then have "0 \<le> ?sum"
      using int_of_digits_nonneg by (simp add: digit_string_def)
    then have t: "digit_string (str_int ?sum)" "int_of_digits (str_int ?sum) = ?sum"
      using str_int_nonneg by simp_all
    have f: "files' = files[nat k := ?new]"
      using assms(3) i Some by (auto simp: replace_clip_def Let_def split: result.splits)
    have n: "files' ! nat k = ?new"
      using f assms(1,2) by simp
    have r: "re_search name_pattern (files' ! nat k) = Some [?off, ?deff, str_int ?sum]"
      unfolding n using d t(1) by (rule name_roundtrip)
    show ?thesis
      using f n r t(2) Some by simp
  qed
qed

theorem replace_clip_changes_only_position_k_witness:
  "\<exists>files' w'. replace_clip 1 ''https://example.org/new'' two_files calm_world = Return files' w' \<and>
     files' ! 0 = ''processed_clip_0_Off2_Def1_Total3.mp4'' \<and>
     files' ! 1 = ''processed_clip_1_Off1_Def0_Total1.mp4''"
proof -
  have "returned (replace_clip 1 ''https://example.org/new'' two_files calm_world)"
    by code_simp
  then obtain files' w' where r: "replace_clip 1 ''https://example.org/new'' two_files calm_world = Return files' w'"
    by (auto simp: returned_def split: result.splits)
  have s: "re_search name_pattern (two_files ! nat 1) = Some [''1'', ''0'', ''1'']"
    by code_simp
  have l: "(1::int) < int (length two_files)"
    by (simp add: two_files_def)
  have v: "str_int 1 = ''1''" "int_of_digits ''1'' + int_of_digits ''0'' = 1"
    by code_simp+
  from replace_clip_changes_only_position_k [OF _ l r] s v
  have "files' ! 0 = two_files ! 0" and "files' ! 1 = ''processed_clip_1_Off1_Def0_Total1.mp4''"
    by (simp_all add: two_files_def)
  with r show ?thesis
    by (simp add: two_files_def)
qed

section \<open>C5: invalid input in the replacement session\<close>

text \<open>
  The two kinds of invalid input, for every session. A number outside the list sends the
  loop back to its first question, with the list as it was. Something that is no number
  leads to the question whether to replace another clip, with the list as it was; any
  answer but \<^verbatim>\<open>yes\<close> ends the session there.
\<close>

lemma out_of_range_asks_again:
  assumes "lower (strip line1) = ''yes''" and "py_int (strip line2) = Some n"
    and "n - 1 < 0 \<or> n - 1 \<ge> int (length files)"
  shows "prompt_loop made (line1 # line2 # ins) files w =
           prompt_loop made ins files
             (say (InvalidClipNumber (length files))
               (emit (Ask (AskClipNumber (length files))) (emit (Ask AskReplaceAny) w)))"
  using assms by (simp add: Let_def)

lemma non_numeric_falls_through:
  assumes "lower (strip line1) = ''yes''" and "py_int (strip line2) = None"
  shows "prompt_loop made (line1 # line2 # line3 # ins) files w =
           (let w3 = emit (Ask AskReplaceAnother) (say InvalidInput
                       (emit (Ask (AskClipNumber (length files))) (emit (Ask AskReplaceAny) w)))
            in if lower (strip line3) \<noteq> ''yes'' then Return (made, files) w3
               else prompt_loop made ins files w3)"
  using assms by (simp add: Let_def)

text \<open>
  C5. A clip number that is not a number raises \<^verbatim>\<open>ValueError\<close>; the handler prints a line
  and, unlike the out-of-range branch with its \<^verbatim>\<open>continue\<close>, lets control fall through to
  the question \<^verbatim>\<open>Do you want to replace another clip?\<close>. Answering \<^verbatim>\<open>no\<close> there ends the
  session: here the user says \<^verbatim>\<open>yes\<close>, types \<^verbatim>\<open>abc\<close> for the number, is asked whether to
  replace another clip, and the session is over after \<^verbatim>\<open>no\<close>.
\<close>

theorem non_numeric_input_reaches_replace_another:
  "(case prompt_for_replacements [''yes'', ''abc'', ''no''] [''processed_clip_0_Off1_Def2_Total3.mp4''] calm_world of
      Return r w \<Rightarrow> Some (r, trace w)
    | Raise e w \<Rightarrow> None) =
   Some ((False, [''processed_clip_0_Off1_Def2_Total3.mp4'']),
         [Ask AskReplaceAny, Ask (AskClipNumber 1), Print InvalidInput, Ask AskReplaceAnother])"
  by code_simp

section \<open>C6: what a retrieval leaves on disk\<close>

lemma download_body_files:
  assumes "start r \<noteq> EnterRaises"
  shows "\<exists>new. trace (world_of (download_body r url f w)) = trace w @ new \<and>
           (returned (download_body r url f w) \<longrightarrow>
              (if Print (DownloadCompleted f) \<in> set new
               then \<exists>chunks. http r = Response 200 chunks False \<and>
                      fs (world_of (download_body r url f w)) = (fs w)(f \<mapsto> concat chunks)
               else fs (world_of (download_body r url f w)) = fs w \<and>
                    (Print MaxRetriesReached \<in> set new \<or> Print ErrorWaitingForVideo \<in> set new \<or>
                     (\<exists>st. st \<noteq> 200 \<and> Print (FailedToDownload st) \<in> set new)))) \<and>
           (\<forall>st chunks b. http r = Response st chunks b \<and> st \<noteq> 200 \<longrightarrow>
              fs (world_of (download_body r url f w)) = fs w \<and>
              ((\<exists>u. HttpGet u \<in> set new) \<longrightarrow> returned (download_body r url f w)))"
proof (cases "start r")
  case Started
  obtain res w1 where nl: "nav_loop (nav r) url [0..<max_retries] (emit BrowserLaunch w) = (res, w1)"
    by (cases "nav_loop (nav r) url [0..<max_retries] (emit BrowserLaunch w)") auto
  from nav_loop_effect [OF nl] obtain new where
    n: "w1 = (emit BrowserLaunch w)\<lparr>trace := trace (emit BrowserLaunch w) @ new\<rparr>"
      "\<forall>u. HttpGet u \<notin> set new"
      "\<forall>p. Print (DownloadCompleted p) \<notin> set new"
      "\<forall>s. Print (FailedToDownload s) \<notin> set new"
      "if res = Returned
       then (\<exists>m. new = m @ [BrowserClose] \<and> BrowserClose \<notin> set m) \<and>
            (Print MaxRetriesReached \<in> set new \<or> Print ErrorWaitingForVideo \<in> set new)
       else BrowserClose \<notin> set new"
    by blast
  have t1: "trace w1 = trace w @ BrowserLaunch # new" and f1: "fs w1 = fs w"
    using n(1) by simp_all
  show ?thesis
  proof (cases res)
    case Returned
    with n(5) have p: "Print MaxRetriesReached \<in> set new \<or> Print ErrorWaitingForVideo \<in> set new"
      by simp
    have b: "download_body r url f w = Return () w1"
      using Started nl Returned by (simp add: download_body_def)
    show ?thesis
      using b t1 f1 p n(2-4)
      by (intro exI [of _ "BrowserLaunch # new"]) (auto simp: world_of_def returned_def)
  next
    case Proceed
    show ?thesis
    proof (cases "\<exists>u chunks. u \<noteq> [] \<and> src r = Src u \<and> (\<exists>st chunks b. http r = Response st chunks b \<and> (st = 200 \<longrightarrow> \<not> b))")
      case True
      then obtain u st chunks b where u: "u \<noteq> []" "src r = Src u"
        and h: "http r = Response st chunks b" "st = 200 \<longrightarrow> \<not> b"
        by blast
      show ?thesis
      proof (cases "st = 200")
        case True
        have "download_body r url f w =
                Return () (emit BrowserClose (say (DownloadCompleted f)
                  (write_chunks f chunks (emit (HttpGet u) (say (VideoSourceURL u) w1)))))"
          using Started nl Proceed u h True by (simp add: download_body_def Let_def)
        then show ?thesis
          using t1 f1 h True
          by (intro exI [of _ "BrowserLaunch # new @ [Print (VideoSourceURL u), HttpGet u,
                Print (DownloadCompleted f), BrowserClose]"])
             (auto simp: world_of_def returned_def)
      next
        case False
        have "download_body r url f w =
                Return () (emit BrowserClose (say (FailedToDownload st)
                  (emit (HttpGet u) (say (VideoSourceURL u) w1))))"
          using Started nl Proceed u h False by (simp add: download_body_def Let_def)
        then show ?thesis
          using t1 f1 h False n(2-4)
          by (intro exI [of _ "BrowserLaunch # new @ [Print (VideoSourceURL u), HttpGet u,
                Print (FailedToDownload st), BrowserClose]"])
             (auto simp: world_of_def returned_def)
      qed
    next
      case False
      then have "\<exists>e w2 extra. download_body r url f w = Raise e w2 \<and> trace w2 = trace w1 @ extra \<and>
                   (\<forall>st chunks b. http r = Response st chunks b \<and> st \<noteq> 200 \<longrightarrow>
                      fs w2 = fs w1 \<and> extra = [])"
        using Started nl Proceed
        by (auto simp: download_body_def Let_def split: src_outcome.splits http_outcome.splits)
      then obtain e w2 extra where r: "download_body r url f w = Raise e w2"
        and t2: "trace w2 = trace w1 @ extra"
        and ex: "\<forall>st chunks b. http r = Response st chunks b \<and> st \<noteq> 200 \<longrightarrow> fs w2 = fs w1 \<and> extra = []"
        by blast
      show ?thesis
        using r t1 t2 f1 ex n(2)
        by (intro exI [of _ "BrowserLaunch # new @ extra"])
           (auto simp: world_of_def returned_def)
    qed
  qed
next
  case EnterRaises
  with assms show ?thesis by simp
next
  case LaunchRaises
  then show ?thesis
    by (intro exI [of _ "[]"]) (simp add: download_body_def world_of_def returned_def)
next
  case NewPageRaises
  then show ?thesis
    by (intro exI [of _ "[BrowserLaunch]"]) (simp add: download_body_def world_of_def returned_def)
qed


text \<open>
  C6 as stated fails: the call prints \<^verbatim>\<open>Download completed\<close> after a response with status
  200 and an empty body, and the file it leaves is empty.
\<close>

theorem reported_success_with_empty_file:
  "returned (download_video_from_page ''u1'' ''clip.mp4'' empty_body_world) \<and>
   Print (DownloadCompleted ''clip.mp4'')
     \<in> set (trace (world_of (download_video_from_page ''u1'' ''clip.mp4'' empty_body_world))) \<and>
   fs (world_of (download_video_from_page ''u1'' ''clip.mp4'' empty_body_world)) ''clip.mp4'' = Some []"
  by code_simp

text \<open>
  C6, amended. The function returns nothing; what it reports is what it prints. When a
  call returns and has printed \<^verbatim>\<open>Download completed\<close>, the response had status 200 and the
  destination file holds exactly the bytes of its body (so it is non-empty when the body
  is). When a call returns without that line, it has printed one of the three failure
  lines (retries exhausted, video element missing, status not 200) and the files are as
  they were before: nothing is left at the destination. When the answer to the download
  has a status other than 200, no file is written, and once the request is made the call
  returns instead of raising.
\<close>

theorem download_outcome:
  "let r = retrievals w (dl_calls w); res = download_video_from_page url f w; w' = world_of res in
   \<exists>new. trace w' = trace w @ new \<and>
     (returned res \<longrightarrow>
        (if Print (DownloadCompleted f) \<in> set new
         then \<exists>chunks. http r = Response 200 chunks False \<and> fs w' = (fs w)(f \<mapsto> concat chunks)
         else fs w' = fs w \<and>
              (Print MaxRetriesReached \<in> set new \<or> Print ErrorWaitingForVideo \<in> set new \<or>
               (\<exists>st. st \<noteq> 200 \<and> Print (FailedToDownload st) \<in> set new)))) \<and>
     (\<forall>st chunks b. http r = Response st chunks b \<and> st \<noteq> 200 \<longrightarrow>
        fs w' = fs w \<and> ((\<exists>u. HttpGet u \<in> set new) \<longrightarrow> returned res))"
proof (cases "start (retrievals w (dl_calls w)) = EnterRaises")
  case True
  then show ?thesis
    by (simp add: download_video_from_page_def Let_def returned_def world_of_def)
next
  case False
  let ?r = "retrievals w (dl_calls w)"
  let ?w0 = "emit SessionEnter (w\<lparr>dl_calls := Suc (dl_calls w)\<rparr>)"
  let ?b = "download_body ?r url f ?w0"
  from download_body_files [OF False, of url f ?w0] obtain new where
    n: "trace (world_of ?b) = trace ?w0 @ new"
       "returned ?b \<longrightarrow>
              (if Print (DownloadCompleted f) \<in> set new
               then \<exists>chunks. http ?r = Response 200 chunks False \<and>
                      fs (world_of ?b) = (fs ?w0)(f \<mapsto> concat chunks)
               else fs (world_of ?b) = fs ?w0 \<and>
                    (Print MaxRetriesReached \<in> set new \<or> Print ErrorWaitingForVideo \<in> set new \<or>
                     (\<exists>st. st \<noteq> 200 \<and> Print (FailedToDownload st) \<in> set new)))"
       "\<forall>st chunks b. http ?r = Response st chunks b \<and> st \<noteq> 200 \<longrightarrow>
              fs (world_of ?b) = fs ?w0 \<and> ((\<exists>u. HttpGet u \<in> set new) \<longrightarrow> returned ?b)"
    by blast
  have d: "download_video_from_page url f w = with_session (download_body ?r url f) (w\<lparr>dl_calls := Suc (dl_calls w)\<rparr>)"
    using False by (simp add: download_video_from_page_def Let_def split: start_outcome.splits)
  have t: "trace (world_of (download_video_from_page url f w)) = trace w @ (SessionEnter # new @ [SessionExit])"
    and rr: "returned (download_video_from_page url f w) = returned ?b"
    and ff: "fs (world_of (download_video_from_page url f w)) = fs (world_of ?b)"
    using d n(1) by (auto simp: with_session_def world_of_def returned_def split: result.splits)
  have f0: "fs ?w0 = fs w" by simp
  show ?thesis
    unfolding Let_def
    apply (rule exI [of _ "SessionEnter # new @ [SessionExit]"])
    using t rr ff n(2,3) f0 by auto
qed


theorem download_outcome_witness:
  "fs (world_of (download_video_from_page ''u1'' ''clip.mp4'' calm_world)) ''clip.mp4'' = Some ''raw'' \<and>
   returned (download_video_from_page ''u1'' ''clip.mp4'' not_found_world) \<and>
   fs (world_of (download_video_from_page ''u1'' ''clip.mp4'' not_found_world)) ''clip.mp4'' = None"
proof -
  let ?res = "download_video_from_page ''u1'' ''clip.mp4'' calm_world"
  have r: "returned ?res"
    by code_simp
  have p: "Print (DownloadCompleted ''clip.mp4'') \<in> set (trace (world_of ?res))"
    by code_simp
  have t: "trace calm_world = []"
    and h: "http (retrievals calm_world (dl_calls calm_world)) = Response 200 [''raw''] False"
    by (simp_all add: calm_world_def good_retrieval_def)
  have 1: "fs (world_of ?res) ''clip.mp4'' = Some ''raw''"
    using download_outcome [of calm_world "''u1''" "''clip.mp4''"] r p t h
    by (auto simp: Let_def)
  let ?res' = "download_video_from_page ''u1'' ''clip.mp4'' not_found_world"
  have g: "HttpGet ''https://cdn/clip.mp4'' \<in> set (trace (world_of ?res'))"
    by code_simp
  have t': "trace not_found_world = []" and f': "fs not_found_world = Map.empty"
    and h': "http (retrievals not_found_world (dl_calls not_found_world)) = Response 404 [''gone''] False"
    by (simp_all add: not_found_world_def calm_world_def)
  have 2: "returned ?res' \<and> fs (world_of ?res') ''clip.mp4'' = None"
    using download_outcome [of not_found_world "''u1''" "''clip.mp4''"] g t' f' h'
    by (auto simp: Let_def)
  from 1 2 show ?thesis by simp
qed

section \<open>C7: the session is entered once and left on every path\<close>

lemma download_body_trace:
  assumes "start r \<noteq> EnterRaises"
  shows "\<exists>mid. trace (world_of (download_body r url f w)) = trace w @ mid \<and>
           SessionEnter \<notin> set mid \<and> SessionExit \<notin> set mid \<and>
           (if returned (download_body r url f w)
            then \<exists>mid'. mid = [BrowserLaunch] @ mid' @ [BrowserClose] \<and>
                   BrowserLaunch \<notin> set mid' \<and> BrowserClose \<notin> set mid'
            else count_list mid BrowserLaunch \<le> 1 \<and> BrowserClose \<notin> set mid)"
proof (cases "start r")
  case Started
  obtain res w1 where nl: "nav_loop (nav r) url [0..<max_retries] (emit BrowserLaunch w) = (res, w1)"
    by (cases "nav_loop (nav r) url [0..<max_retries] (emit BrowserLaunch w)") auto
  from nav_loop_effect [OF nl] obtain new where
    n: "w1 = (emit BrowserLaunch w)\<lparr>trace := trace (emit BrowserLaunch w) @ new\<rparr>"
      "SessionEnter \<notin> set new" "SessionExit \<notin> set new" "BrowserLaunch \<notin> set new"
      "if res = Returned
       then (\<exists>m. new = m @ [BrowserClose] \<and> BrowserClose \<notin> set m) \<and>
            (Print MaxRetriesReached \<in> set new \<or> Print ErrorWaitingForVideo \<in> set new)
       else BrowserClose \<notin> set new"
    by blast
  have t1: "trace w1 = trace w @ BrowserLaunch # new"
    using n(1) by simp
  show ?thesis
  proof (cases res)
    case Returned
    with n(5) obtain m where m: "new = m @ [BrowserClose]" "BrowserClose \<notin> set m"
      by auto
    have b: "download_body r url f w = Return () w1"
      using Started nl Returned by (simp add: download_body_def)
    show ?thesis
      using b t1 m n(2-4)
      by (intro exI [of _ "BrowserLaunch # new"]) (auto simp: world_of_def returned_def)
  next
    case Proceed
    with n(5) have nc: "BrowserClose \<notin> set new" by simp
    show ?thesis
    proof (cases "\<exists>u chunks. u \<noteq> [] \<and> src r = Src u \<and> (\<exists>st chunks b. http r = Response st chunks b \<and> (st = 200 \<longrightarrow> \<not> b))")
      case True
      then obtain u st chunks b where u: "u \<noteq> []" "src r = Src u"
        and h: "http r = Response st chunks b" "st = 200 \<longrightarrow> \<not> b"
        by blast
      show ?thesis
      proof (cases "st = 200")
        case True
        have "download_body r url f w =
                Return () (emit BrowserClose (say (DownloadCompleted f)
                  (write_chunks f chunks (emit (HttpGet u) (say (VideoSourceURL u) w1)))))"
          using Started nl Proceed u h True by (simp add: download_body_def Let_def)
        then show ?thesis
          using t1 nc n(2-4)
          by (intro exI [of _ "BrowserLaunch # new @ [Print (VideoSourceURL u), HttpGet u,
                Print (DownloadCompleted f), BrowserClose]"])
             (auto simp: world_of_def returned_def)
      next
        case False
        have "download_body r url f w =
                Return () (emit BrowserClose (say (FailedToDownload st)
                  (emit (HttpGet u) (say (VideoSourceURL u) w1))))"
          using Started nl Proceed u h False by (simp add: download_body_def Let_def)
        then show ?thesis
          using t1 nc n(2-4)
          by (intro exI [of _ "BrowserLaunch # new @ [Print (VideoSourceURL u), HttpGet u,
                Print (FailedToDownload st), BrowserClose]"])
             (auto simp: world_of_def returned_def)
      qed
    next
      case False
      then have "\<exists>e w2 extra. download_body r url f w = Raise e w2 \<and> trace w2 = trace w1 @ extra \<and>
                   set extra \<subseteq> {Print (VideoSourceURL u) | u. True} \<union> {HttpGet u | u. True}"
        using Started nl Proceed
        by (auto simp: download_body_def Let_def split: src_outcome.splits http_outcome.splits)
      then obtain e w2 extra where r: "download_body r url f w = Raise e w2"
        and t2: "trace w2 = trace w1 @ extra"
        and ex: "set extra \<subseteq> {Print (VideoSourceURL u) | u. True} \<union> {HttpGet u | u. True}"
        by blast
      have "BrowserLaunch \<notin> set extra" "BrowserClose \<notin> set extra"
        "SessionEnter \<notin> set extra" "SessionExit \<notin> set extra"
        using ex by auto
      then show ?thesis
        using r t1 t2 nc n(2-4)
        by (intro exI [of _ "BrowserLaunch # new @ extra"])
           (auto simp: world_of_def returned_def count_list_0_iff)
    qed
  qed
next
  case EnterRaises
  with assms show ?thesis by simp
next
  case LaunchRaises
  then show ?thesis
    by (intro exI [of _ "[]"]) (simp add: download_body_def world_of_def returned_def)
next
  case NewPageRaises
  then show ?thesis
    by (intro exI [of _ "[BrowserLaunch]"]) (simp add: download_body_def world_of_def returned_def)
qed


text \<open>
  C7. The resource of a retrieval is the Playwright session of the \<^verbatim>\<open>with\<close> statement,
  through which the browser is launched. For every world, that is on every path through
  the call: unless entering the session itself fails (then nothing was acquired), the
  session is entered exactly once, first, and left exactly once, last, whether the call
  returns or raises. Inside it the browser is launched at most once (never again in the
  retry loop). A call that returns (download completed, status not 200, retries exhausted,
  video element missing) has launched the browser once and closed it once, as the last
  thing before the session is left; a call that raises (no source URL, an error of the
  browser or of the download) has not called \<^verbatim>\<open>browser.close()\<close>: there the browser ends
  with the session that launched it, when the \<^verbatim>\<open>with\<close> statement is left.
\<close>

theorem session_released_on_every_path:
  "let r = retrievals w (dl_calls w); res = download_video_from_page url f w in
   if start r = EnterRaises then \<not> returned res \<and> trace (world_of res) = trace w
   else \<exists>mid. trace (world_of res) = trace w @ [SessionEnter] @ mid @ [SessionExit] \<and>
          SessionEnter \<notin> set mid \<and> SessionExit \<notin> set mid \<and>
          (if returned res
           then \<exists>mid'. mid = [BrowserLaunch] @ mid' @ [BrowserClose] \<and>
                  BrowserLaunch \<notin> set mid' \<and> BrowserClose \<notin> set mid'
           else count_list mid BrowserLaunch \<le> 1 \<and> BrowserClose \<notin> set mid)"
proof (cases "start (retrievals w (dl_calls w)) = EnterRaises")
  case True
  then show ?thesis
    by (simp add: download_video_from_page_def Let_def returned_def world_of_def)
next
  case False
  let ?r = "retrievals w (dl_calls w)"
  let ?w0 = "emit SessionEnter (w\<lparr>dl_calls := Suc (dl_calls w)\<rparr>)"
  let ?b = "download_body ?r url f ?w0"
  from download_body_trace [OF False, of url f ?w0] obtain mid where
    m: "trace (world_of ?b) = trace ?w0 @ mid" "SessionEnter \<notin> set mid" "SessionExit \<notin> set mid"
       "if returned ?b
        then \<exists>mid'. mid = [BrowserLaunch] @ mid' @ [BrowserClose] \<and>
               BrowserLaunch \<notin> set mid' \<and> BrowserClose \<notin> set mid'
        else count_list mid BrowserLaunch \<le> 1 \<and> BrowserClose \<notin> set mid"
    by blast
  have d: "download_video_from_page url f w = with_session (download_body ?r url f) (w\<lparr>dl_calls := Suc (dl_calls w)\<rparr>)"
    using False by (simp add: download_video_from_page_def Let_def split: start_outcome.splits)
  have t: "trace (world_of (download_video_from_page url f w)) = trace w @ [SessionEnter] @ mid @ [SessionExit]"
    and rr: "returned (download_video_from_page url f w) = returned ?b"
    using d m(1) by (auto simp: with_session_def world_of_def returned_def split: result.splits)
  show ?thesis
    using False t rr m(2-4) by (auto simp: Let_def)
qed

theorem session_released_on_every_path_witness:
  "\<not> returned (download_video_from_page ''u1'' ''clip.mp4'' no_source_world) \<and>
   last (trace (world_of (download_video_from_page ''u1'' ''clip.mp4'' no_source_world))) = SessionExit \<and>
   BrowserClose \<notin> set (trace (world_of (download_video_from_page ''u1'' ''clip.mp4'' no_source_world))) \<and>
   returned (download_video_from_page ''u1'' ''clip.mp4'' calm_world) \<and>
   hd (trace (world_of (download_video_from_page ''u1'' ''clip.mp4'' calm_world))) = SessionEnter \<and>
   last (trace (world_of (download_video_from_page ''u1'' ''clip.mp4'' calm_world))) = SessionExit \<and>
   count_list (trace (world_of (download_video_from_page ''u1'' ''clip.mp4'' calm_world))) BrowserClose = 1"
proof -
  have s: "start (retrievals no_source_world (dl_calls no_source_world)) \<noteq> EnterRaises"
    and t: "trace no_source_world = []"
    by (simp_all add: no_source_world_def calm_world_def)
  have r: "\<not> returned (download_video_from_page ''u1'' ''clip.mp4'' no_source_world)"
    by code_simp
  have 1: "\<not> returned (download_video_from_page ''u1'' ''clip.mp4'' no_source_world) \<and>
     last (trace (world_of (download_video_from_page ''u1'' ''clip.mp4'' no_source_world))) = SessionExit \<and>
     BrowserClose \<notin> set (trace (world_of (download_video_from_page ''u1'' ''clip.mp4'' no_source_world)))"
    using session_released_on_every_path [of no_source_world "''u1''" "''clip.mp4''"] s t r
    by (auto simp: Let_def)
  have s': "start (retrievals calm_world (dl_calls calm_world)) \<noteq> EnterRaises"
    and t': "trace calm_world = []"
    by (simp_all add: calm_world_def good_retrieval_def)
  have r': "returned (download_video_from_page ''u1'' ''clip.mp4'' calm_world)"
    by code_simp
  have 2: "hd (trace (world_of (download_video_from_page ''u1'' ''clip.mp4'' calm_world))) = SessionEnter \<and>
     last (trace (world_of (download_video_from_page ''u1'' ''clip.mp4'' calm_world))) = SessionExit \<and>
     count_list (trace (world_of (download_video_from_page ''u1'' ''clip.mp4'' calm_world))) BrowserClose = 1"
    using session_released_on_every_path [of calm_world "''u1''" "''clip.mp4''"] s' t' r'
    by (auto simp: Let_def)
  from 1 r' 2 show ?thesis by simp
qed

section \<open>C8: the manifest of the concatenation\<close>





section \<open>C9: what the final cleanup removes\<close>

text \<open>
  C9. A run with one event and one replacement, in which every retrieval and every ffmpeg
  run works: it ends with \<^verbatim>\<open>All done!\<close>, the final video exists, the raw and the annotated
  clip of the loop are gone, and \<^verbatim>\<open>temp_clip_0.mp4\<close>, the raw file the replacement
  downloaded, is still there. \<^verbatim>\<open>replace_clip\<close> records its raw file nowhere, so the loop
  over \<^verbatim>\<open>temp_videos + video_files\<close> cannot remove it.
\<close>

theorem replacement_temp_file_survives_cleanup:
  "(case main_from_events ''NYK'' ''BOS'' ''01/02/2025'' one_event [''yes'', ''1'', ''https://example.org/new'', ''no''] calm_world of
      Return x w \<Rightarrow>
        Some (last (trace w), fs w ''NYK_BOS_01_02_2025_Off1_Def2_Total3.mp4'',
              fs w ''clip_0_Off1_Def2_Total3.mp4'', fs w ''processed_clip_0_Off1_Def2_Total3.mp4'',
              fs w ''temp_clip_0.mp4'')
    | Raise e w \<Rightarrow> None) =
   Some (Print AllDone, Some ''video'', None, None, Some ''raw'')"
  by code_simp

section \<open>C10: a file name without statistics leaves everything as it was\<close>

text \<open>
  C10. When the file name at the chosen position does not match
  \<^verbatim>\<open>Off(\d+)_Def(\d+)_Total(\d+)\<close>, \<^verbatim>\<open>replace_clip\<close> returns with the file list as it was;
  the world differs from the one before in a single printed line, the diagnostic: no file
  is written, no retrieval and no ffmpeg run is started.
\<close>

theorem replace_clip_without_stats:
  assumes "py_index files clip_number = Some k"
    and "re_search name_pattern (files ! k) = None"
  shows "replace_clip clip_number new_url files w =
           Return files (w\<lparr>trace := trace w @ [Print (CouldNotFindStats (files ! k))]\<rparr>)"
  using assms by (simp add: replace_clip_def say_def emit_def)

theorem replace_clip_without_stats_witness:
  "replace_clip 0 ''https://example.org/new'' [''intro.mp4''] calm_world =
     Return [''intro.mp4'']
       (calm_world\<lparr>trace := trace calm_world @ [Print (CouldNotFindStats ''intro.mp4'')]\<rparr>)"
proof -
  have i: "py_index [''intro.mp4''] 0 = Some 0"
    by (simp add: py_index_def)
  have n: "re_search name_pattern ([''intro.mp4''] ! 0) = None"
    by code_simp
  show ?thesis
    using replace_clip_without_stats [OF i n] by simp
qed

end
